theory Spec2Isabelle
  imports Main
begin

section \<open>String operations of the host language\<close>

text \<open>
  Texts are lists of characters. The operations below are the methods of
  \<^verbatim>\<open>String.prototype\<close> that the two parsers call, on code units below 256.
\<close>

definition newline :: string where
  "newline = [CHR 0x0A]"

text \<open>The white space that \<^verbatim>\<open>trim\<close> removes, and the characters that end a line.\<close>

definition is_white_space :: "char \<Rightarrow> bool" where
  "is_white_space c =
     (c = CHR 0x09 \<or> c = CHR 0x0A \<or> c = CHR 0x0B \<or> c = CHR 0x0C \<or> c = CHR 0x0D
      \<or> c = CHR 0x20 \<or> c = CHR 0xA0)"

definition is_line_terminator :: "char \<Rightarrow> bool" where
  "is_line_terminator c = (c = CHR 0x0A \<or> c = CHR 0x0D)"

definition trim :: "string \<Rightarrow> string" where
  "trim s = rev (dropWhile is_white_space (rev (dropWhile is_white_space s)))"

definition startsWith :: "string \<Rightarrow> string \<Rightarrow> bool" where
  "startsWith p s = (take (length p) s = p)"

definition endsWith :: "string \<Rightarrow> string \<Rightarrow> bool" where
  "endsWith p s = (length p \<le> length s \<and> drop (length s - length p) s = p)"

fun str_includes :: "string \<Rightarrow> string \<Rightarrow> bool" where
  "str_includes p [] = (p = [])"
| "str_includes p (c # cs) = (startsWith p (c # cs) \<or> str_includes p cs)"

text \<open>\<^verbatim>\<open>s.slice(b)\<close> and \<^verbatim>\<open>s.slice(b, -k)\<close> for literal \<open>b\<close> and \<open>k\<close>.\<close>

definition slice_from :: "nat \<Rightarrow> string \<Rightarrow> string" where
  "slice_from b s = drop b s"

definition slice_between :: "nat \<Rightarrow> nat \<Rightarrow> string \<Rightarrow> string" where
  "slice_between b k s = take ((length s - k) - b) (drop b s)"

text \<open>
  \<^verbatim>\<open>s.split(sep)\<close> for a non-empty separator: the occurrences of \<open>sep\<close> are found
  from the left and do not overlap; the result always has at least one piece.
\<close>

fun split_str :: "string \<Rightarrow> string \<Rightarrow> string list" where
  "split_str sep [] = [[]]"
| "split_str sep (c # cs) =
     (if startsWith sep (c # cs) then [] # split_str sep (drop (length sep - 1) cs)
      else (case split_str sep cs of
              [] \<Rightarrow> [[c]]
            | w # ws \<Rightarrow> (c # w) # ws))"

fun join :: "string \<Rightarrow> string list \<Rightarrow> string" where
  "join sep [] = []"
| "join sep [x] = x"
| "join sep (x # y # ys) = x @ sep @ join sep (y # ys)"

text \<open>
  \<^verbatim>\<open>line.match(/={(.+)}=>(.+)/)\<close>: the pattern is searched from every start
  position, leftmost first. Each \<^verbatim>\<open>.+\<close> is greedy and matches no line terminator;
  the first group gives characters back until \<^verbatim>\<open>}=>\<close> and one more character
  follow it. The result holds the two groups.
\<close>

fun match_group1 :: "string \<Rightarrow> nat \<Rightarrow> (string \<times> string) option" where
  "match_group1 rest 0 = None"
| "match_group1 rest (Suc k) =
     (let after = drop (Suc k) rest in
      if startsWith ''}=>'' after
         \<and> (case drop 3 after of [] \<Rightarrow> False | c # _ \<Rightarrow> \<not> is_line_terminator c)
      then Some (take (Suc k) rest,
                 takeWhile (\<lambda>c. \<not> is_line_terminator c) (drop 3 after))
      else match_group1 rest k)"

definition match_at :: "string \<Rightarrow> (string \<times> string) option" where
  "match_at s =
     (if startsWith ''={'' s
      then match_group1 (drop 2 s)
             (length (takeWhile (\<lambda>c. \<not> is_line_terminator c) (drop 2 s)))
      else None)"

fun match_condition :: "string \<Rightarrow> (string \<times> string) option" where
  "match_condition [] = None"
| "match_condition (c # cs) =
     (case match_at (c # cs) of
        Some r \<Rightarrow> Some r
      | None \<Rightarrow> match_condition cs)"

section \<open>The parser of \<^verbatim>\<open>src/code.ts\<close>\<close>

text \<open>
  A parser can leave its declared types in two ways only: by calling a method on
  \<^verbatim>\<open>undefined\<close>, which throws \<open>TypeError\<close>, and by binding \<^verbatim>\<open>undefined\<close> to a field
  declared as a string, which the model reports as \<open>UndefinedField\<close>. Both are values
  of the result type.
\<close>

datatype error = TypeError | UndefinedField

datatype element_type = Screen | Requirement | Component | Usecase

datatype component_type = Text | Field | Button | Action

record requirements =
  performance :: "string option"
  security :: "string option"
  availability :: "string option"
  usability :: "string option"

record component =
  ctype :: component_type
  cname :: string

record transition =
  to :: string
  condition :: "string option"

text \<open>The optional fields of the interface \<^verbatim>\<open>ScreenElement\<close> are options.\<close>

record ScreenElement =
  etype :: element_type
  name :: string
  requirements :: "requirements option"
  components :: "component list option"
  transitions :: "transition list option"

record parser =
  screens :: "ScreenElement list"
  currentScreen :: "ScreenElement option"

definition no_requirements :: requirements where
  "no_requirements =
     \<lparr>performance = None, security = None, availability = None, usability = None\<rparr>"

definition new_screen :: "string \<Rightarrow> ScreenElement" where
  "new_screen n =
     \<lparr>etype = Screen, name = n, requirements = Some no_requirements,
      components = Some [], transitions = Some []\<rparr>"

definition is_header :: "string \<Rightarrow> bool" where
  "is_header line = (startsWith ''['' line \<and> endsWith '']'' line)"

definition is_component_line :: "string \<Rightarrow> bool" where
  "is_component_line line =
     (startsWith ''T '' line \<or> startsWith ''E '' line
      \<or> startsWith ''B '' line \<or> startsWith ''A '' line)"

definition component_kind :: "string \<Rightarrow> component_type" where
  "component_kind t =
     (if t = ''T'' then Text else if t = ''E'' then Field
      else if t = ''B'' then Button else Action)"

text \<open>\<^verbatim>\<open>screen.components!.push(c)\<close> and \<^verbatim>\<open>screen.transitions!.push(t)\<close>.\<close>

definition push_component :: "component \<Rightarrow> ScreenElement \<Rightarrow> error + ScreenElement" where
  "push_component c s =
     (case components s of
        None \<Rightarrow> Inl TypeError
      | Some cs \<Rightarrow> Inr (s\<lparr>components := Some (cs @ [c])\<rparr>))"

definition push_transition :: "transition \<Rightarrow> ScreenElement \<Rightarrow> error + ScreenElement" where
  "push_transition t s =
     (case transitions s of
        None \<Rightarrow> Inl TypeError
      | Some ts \<Rightarrow> Inr (s\<lparr>transitions := Some (ts @ [t])\<rparr>))"

definition set_current :: "parser \<Rightarrow> error + ScreenElement \<Rightarrow> error + parser" where
  "set_current p r =
     (case r of Inl e \<Rightarrow> Inl e | Inr s \<Rightarrow> Inr (p\<lparr>currentScreen := Some s\<rparr>))"

text \<open>The \<^verbatim>\<open>switch\<close> on the requirement category.\<close>

definition set_requirement :: "string \<Rightarrow> string \<Rightarrow> requirements \<Rightarrow> requirements" where
  "set_requirement category d r =
     (if category = ''P'' then r\<lparr>performance := Some d\<rparr>
      else if category = ''S'' then r\<lparr>security := Some d\<rparr>
      else if category = ''A'' then r\<lparr>availability := Some d\<rparr>
      else if category = ''U'' then r\<lparr>usability := Some d\<rparr>
      else r)"

text \<open>One iteration of the loop over the trimmed lines.\<close>

definition step :: "string \<Rightarrow> parser \<Rightarrow> error + parser" where
  "step line p =
     (if line = [] then Inr p
      else if is_header line then
        Inr \<lparr>screens = (case currentScreen p of
                           None \<Rightarrow> screens p
                         | Some s \<Rightarrow> screens p @ [s]),
             currentScreen = Some (new_screen (slice_between 1 1 line))\<rparr>
      else if startsWith ''//'' line then
        (let parts = split_str '':'' (slice_from 2 line) in
         case currentScreen p of
           None \<Rightarrow> Inr p
         | Some s \<Rightarrow>
             (case requirements s of
                None \<Rightarrow> Inr p
              | Some r \<Rightarrow>
                  (case parts of
                     [] \<Rightarrow> Inl TypeError
                   | ty # description \<Rightarrow>
                       Inr (p\<lparr>currentScreen := Some (s\<lparr>requirements :=
                              Some (set_requirement (trim ty)
                                      (trim (join '':'' description)) r)\<rparr>)\<rparr>))))
      else if is_component_line line then
        (case currentScreen p of
           None \<Rightarrow> Inr p
         | Some s \<Rightarrow>
             set_current p
               (push_component
                  \<lparr>ctype = component_kind (take 1 line), cname = slice_from 2 line\<rparr> s))
      else if startsWith ''=>'' line then
        (case currentScreen p of
           None \<Rightarrow> Inr p
         | Some s \<Rightarrow>
             set_current p
               (push_transition \<lparr>to = trim (slice_from 2 line), condition = None\<rparr> s))
      else if startsWith ''={'' line then
        (case match_condition line of
           None \<Rightarrow> Inr p
         | Some (g1, g2) \<Rightarrow>
             (case currentScreen p of
                None \<Rightarrow> Inr p
              | Some s \<Rightarrow>
                  set_current p
                    (push_transition \<lparr>to = trim g2, condition = Some (trim g1)\<rparr> s)))
      else Inr p)"

fun parse_loop :: "string list \<Rightarrow> parser \<Rightarrow> error + parser" where
  "parse_loop [] p = Inr p"
| "parse_loop (line # rest) p =
     (case step line p of
        Inl e \<Rightarrow> Inl e
      | Inr p' \<Rightarrow> parse_loop rest p')"

text \<open>After the loop the screen still open, if any, is pushed.\<close>

definition finish :: "parser \<Rightarrow> ScreenElement list" where
  "finish p =
     (case currentScreen p of
        None \<Rightarrow> screens p
      | Some s \<Rightarrow> screens p @ [s])"

definition lines_of :: "string \<Rightarrow> string list" where
  "lines_of text = map trim (split_str newline text)"

definition parse_lines :: "string list \<Rightarrow> error + ScreenElement list" where
  "parse_lines ls =
     (case parse_loop ls \<lparr>screens = [], currentScreen = None\<rparr> of
        Inl e \<Rightarrow> Inl e
      | Inr p \<Rightarrow> Inr (finish p))"

definition parse :: "string \<Rightarrow> error + ScreenElement list" where
  "parse text = parse_lines (lines_of text)"

section \<open>The parser of the second source file\<close>

text \<open>
  The second file declares its own \<^verbatim>\<open>ScreenElement\<close>, with sections and with
  transitions that carry the name of their action; its constants end in \<open>0\<close>.
  The field \<^verbatim>\<open>type\<close> has the single value \<^verbatim>\<open>'screen'\<close> and is left out.
\<close>

datatype component_type0 = Text0 | Button0 | Action0 | Other0

record component0 =
  ctype0 :: component_type0
  cname0 :: string

record transition0 =
  from0 :: string
  to0 :: string

record ScreenElement0 =
  name0 :: string
  components0 :: "component0 list"
  transitions0 :: "transition0 list"
  sections0 :: "string list"

record parser0 =
  screens0 :: "ScreenElement0 list"
  currentScreen0 :: "ScreenElement0 option"

definition new_screen0 :: "string \<Rightarrow> ScreenElement0" where
  "new_screen0 n = \<lparr>name0 = n, components0 = [], transitions0 = [], sections0 = []\<rparr>"

definition is_component_line0 :: "string \<Rightarrow> bool" where
  "is_component_line0 line =
     (startsWith ''T '' line \<or> startsWith ''B '' line
      \<or> startsWith ''A '' line \<or> startsWith ''O '' line)"

definition component_kind0 :: "string \<Rightarrow> component_type0" where
  "component_kind0 t =
     (if t = ''T'' then Text0 else if t = ''B'' then Button0
      else if t = ''A'' then Action0 else Other0)"

definition step0 :: "string \<Rightarrow> parser0 \<Rightarrow> error + parser0" where
  "step0 line p =
     (if line = [] then Inr p
      else if is_header line then
        Inr \<lparr>screens0 = (case currentScreen0 p of
                            None \<Rightarrow> screens0 p
                          | Some s \<Rightarrow> screens0 p @ [s]),
             currentScreen0 = Some (new_screen0 (slice_between 1 1 line))\<rparr>
      else if line = ''--'' then
        (case currentScreen0 p of
           None \<Rightarrow> Inr p
         | Some s \<Rightarrow> Inr (p\<lparr>currentScreen0 := Some (s\<lparr>sections0 := sections0 s @ [line]\<rparr>)\<rparr>))
      else if str_includes ''=>'' line then
        (case currentScreen0 p of
           None \<Rightarrow> Inr p
         | Some s \<Rightarrow>
             (case map trim (split_str ''=>'' line) of
                [] \<Rightarrow> Inl TypeError
              | [action] \<Rightarrow> Inl UndefinedField
              | action # target # _ \<Rightarrow>
                  (let actionName = slice_from 2 action in
                   Inr (p\<lparr>currentScreen0 := Some (s
                          \<lparr>components0 := components0 s
                               @ [\<lparr>ctype0 = Action0, cname0 = actionName\<rparr>],
                           transitions0 := transitions0 s
                               @ [\<lparr>from0 = actionName, to0 = target\<rparr>]\<rparr>)\<rparr>))))
      else if is_component_line0 line then
        (case currentScreen0 p of
           None \<Rightarrow> Inr p
         | Some s \<Rightarrow>
             Inr (p\<lparr>currentScreen0 := Some (s\<lparr>components0 := components0 s
                    @ [\<lparr>ctype0 = component_kind0 (take 1 line),
                        cname0 = slice_from 2 line\<rparr>]\<rparr>)\<rparr>))
      else Inr p)"

fun parse_loop0 :: "string list \<Rightarrow> parser0 \<Rightarrow> error + parser0" where
  "parse_loop0 [] p = Inr p"
| "parse_loop0 (line # rest) p =
     (case step0 line p of
        Inl e \<Rightarrow> Inl e
      | Inr p' \<Rightarrow> parse_loop0 rest p')"

definition finish0 :: "parser0 \<Rightarrow> ScreenElement0 list" where
  "finish0 p =
     (case currentScreen0 p of
        None \<Rightarrow> screens0 p
      | Some s \<Rightarrow> screens0 p @ [s])"

definition parse_lines0 :: "string list \<Rightarrow> error + ScreenElement0 list" where
  "parse_lines0 ls =
     (case parse_loop0 ls \<lparr>screens0 = [], currentScreen0 = None\<rparr> of
        Inl e \<Rightarrow> Inl e
      | Inr p \<Rightarrow> Inr (finish0 p))"

definition parse0 :: "string \<Rightarrow> error + ScreenElement0 list" where
  "parse0 text = parse_lines0 (lines_of text)"

section \<open>The renderers\<close>

text \<open>
  A renderer places one node per screen and then draws one connector per transition
  whose target name is in the table of placed nodes. The host calls are taken to
  succeed. A connector stores the identifiers of its two end nodes; the model stores
  the nodes themselves. Fonts and the text labels beside the connectors are left out.
\<close>

subsection \<open>\<^verbatim>\<open>src/code.ts\<close>\<close>

record StickyNode =
  node_x :: int
  node_y :: int
  characters :: string

record connector =
  connectorStart :: StickyNode
  connectorEnd :: StickyNode

definition upper_case :: "component_type \<Rightarrow> string" where
  "upper_case t =
     (case t of Text \<Rightarrow> ''TEXT'' | Field \<Rightarrow> ''FIELD''
              | Button \<Rightarrow> ''BUTTON'' | Action \<Rightarrow> ''ACTION'')"

definition requirement_text :: "string \<Rightarrow> string option \<Rightarrow> string" where
  "requirement_text label v =
     (case v of
        None \<Rightarrow> []
      | Some d \<Rightarrow> (if d = [] then [] else label @ '': '' @ d @ newline))"

fun component_text :: "component list \<Rightarrow> string \<Rightarrow> string" where
  "component_text [] content = content"
| "component_text (c # cs) content =
     component_text cs (content @ upper_case (ctype c) @ '': '' @ cname c @ newline)"

definition createScreenNode :: "ScreenElement \<Rightarrow> int \<Rightarrow> int \<Rightarrow> StickyNode" where
  "createScreenNode screen x y =
     (let content = ''['' @ name screen @ '']'' @ newline @ newline;
          content = (case requirements screen of
                       None \<Rightarrow> content
                     | Some r \<Rightarrow>
                         content @ requirement_text ''P'' (performance r)
                           @ requirement_text ''S'' (security r)
                           @ requirement_text ''A'' (availability r)
                           @ requirement_text ''U'' (usability r) @ newline);
          content = (case components screen of
                       None \<Rightarrow> content
                     | Some cs \<Rightarrow> component_text cs content)
      in \<lparr>node_x = x, node_y = y, characters = content\<rparr>)"

definition spacing :: int where
  "spacing = 150"

definition node_at :: "ScreenElement list \<Rightarrow> nat \<Rightarrow> StickyNode" where
  "node_at ss i = createScreenNode (ss ! i) (0 + int i * spacing * 2) 0"

text \<open>First pass, from index \<open>i\<close> on: \<^verbatim>\<open>screenNodes.set(screen.name, node)\<close>.\<close>

fun place_screens ::
  "nat \<Rightarrow> ScreenElement list \<Rightarrow> (string \<rightharpoonup> StickyNode) \<Rightarrow> (string \<rightharpoonup> StickyNode)" where
  "place_screens i [] m = m"
| "place_screens i (s # rest) m =
     place_screens (Suc i) rest
       (m(name s \<mapsto> createScreenNode s (0 + int i * spacing * 2) 0))"

fun connect_transitions ::
  "(string \<rightharpoonup> StickyNode) \<Rightarrow> StickyNode \<Rightarrow> transition list \<Rightarrow> connector list
     \<Rightarrow> connector list" where
  "connect_transitions m src [] out = out"
| "connect_transitions m src (t # ts) out =
     (case m (to t) of
        None \<Rightarrow> connect_transitions m src ts out
      | Some tgt \<Rightarrow>
          connect_transitions m src ts
            (out @ [\<lparr>connectorStart = src, connectorEnd = tgt\<rparr>]))"

fun connect_screens ::
  "(string \<rightharpoonup> StickyNode) \<Rightarrow> ScreenElement list \<Rightarrow> connector list \<Rightarrow> connector list" where
  "connect_screens m [] out = out"
| "connect_screens m (s # rest) out =
     (case m (name s) of
        None \<Rightarrow> connect_screens m rest out
      | Some src \<Rightarrow>
          (case transitions s of
             None \<Rightarrow> connect_screens m rest out
           | Some ts \<Rightarrow> connect_screens m rest (connect_transitions m src ts out)))"

definition screenNodes :: "ScreenElement list \<Rightarrow> (string \<rightharpoonup> StickyNode)" where
  "screenNodes ss = place_screens 0 ss Map.empty"

definition render :: "ScreenElement list \<Rightarrow> connector list" where
  "render ss = connect_screens (screenNodes ss) ss []"

subsection \<open>The second source file\<close>

record FrameNode =
  frame_x :: int
  frame_y :: int
  frame_text :: string

record connector0 =
  connectorStart0 :: FrameNode
  connectorEnd0 :: FrameNode

definition getComponentPrefix :: "component_type0 \<Rightarrow> string" where
  "getComponentPrefix t =
     (case t of Text0 \<Rightarrow> ''T'' | Button0 \<Rightarrow> ''B'' | Action0 \<Rightarrow> ''A'' | Other0 \<Rightarrow> ''O'')"

fun component_text0 :: "bool \<Rightarrow> component0 list \<Rightarrow> string \<Rightarrow> string" where
  "component_text0 separated [] content = content"
| "component_text0 separated (c # cs) content =
     (let content = (if separated \<and> ctype0 c = Action0
                        \<and> \<not> endsWith (newline @ newline) content
                     then content @ newline else content)
      in component_text0 separated cs
           (content @ getComponentPrefix (ctype0 c) @ '': '' @ cname0 c @ newline))"

definition createScreenNode0 :: "ScreenElement0 \<Rightarrow> int \<Rightarrow> int \<Rightarrow> FrameNode" where
  "createScreenNode0 screen x y =
     \<lparr>frame_x = x, frame_y = y,
      frame_text = component_text0 (''--'' \<in> set (sections0 screen)) (components0 screen)
                     (''['' @ name0 screen @ '']'' @ newline @ newline)\<rparr>"

definition spacing0 :: int where
  "spacing0 = 300"

definition node_at0 :: "ScreenElement0 list \<Rightarrow> nat \<Rightarrow> FrameNode" where
  "node_at0 ss i = createScreenNode0 (ss ! i) (100 + int i * spacing0) 100"

fun place_screens0 ::
  "nat \<Rightarrow> ScreenElement0 list \<Rightarrow> (string \<rightharpoonup> FrameNode) \<Rightarrow> (string \<rightharpoonup> FrameNode)" where
  "place_screens0 i [] m = m"
| "place_screens0 i (s # rest) m =
     place_screens0 (Suc i) rest
       (m(name0 s \<mapsto> createScreenNode0 s (100 + int i * spacing0) 100))"

fun connect_transitions0 ::
  "(string \<rightharpoonup> FrameNode) \<Rightarrow> FrameNode \<Rightarrow> transition0 list \<Rightarrow> connector0 list
     \<Rightarrow> connector0 list" where
  "connect_transitions0 m src [] out = out"
| "connect_transitions0 m src (t # ts) out =
     (case m (to0 t) of
        None \<Rightarrow> connect_transitions0 m src ts out
      | Some tgt \<Rightarrow>
          connect_transitions0 m src ts
            (out @ [\<lparr>connectorStart0 = src, connectorEnd0 = tgt\<rparr>]))"

fun connect_screens0 ::
  "(string \<rightharpoonup> FrameNode) \<Rightarrow> ScreenElement0 list \<Rightarrow> connector0 list \<Rightarrow> connector0 list" where
  "connect_screens0 m [] out = out"
| "connect_screens0 m (s # rest) out =
     (case m (name0 s) of
        None \<Rightarrow> connect_screens0 m rest out
      | Some src \<Rightarrow> connect_screens0 m rest (connect_transitions0 m src (transitions0 s) out))"

definition screenNodes0 :: "ScreenElement0 list \<Rightarrow> (string \<rightharpoonup> FrameNode)" where
  "screenNodes0 ss = place_screens0 0 ss Map.empty"

definition render0 :: "ScreenElement0 list \<Rightarrow> connector0 list" where
  "render0 ss = connect_screens0 (screenNodes0 ss) ss []"

section \<open>Notions used to state the properties\<close>

text \<open>
  The parser of \<^verbatim>\<open>src/code.ts\<close> only creates screens whose three optional fields are
  present.
\<close>

definition wf_screen :: "ScreenElement \<Rightarrow> bool" where
  "wf_screen s =
     (requirements s \<noteq> None \<and> components s \<noteq> None \<and> transitions s \<noteq> None)"

text \<open>
  The screen that one loop iteration leaves open when it starts with the screen \<open>s\<close>
  open; it is read off \<open>step\<close> itself.
\<close>

definition body_step :: "string \<Rightarrow> ScreenElement \<Rightarrow> ScreenElement" where
  "body_step line s =
     (case step line \<lparr>screens = [], currentScreen = Some s\<rparr> of
        Inl e \<Rightarrow> s
      | Inr q \<Rightarrow> (case currentScreen q of None \<Rightarrow> s | Some s' \<Rightarrow> s'))"

definition body_step0 :: "string \<Rightarrow> ScreenElement0 \<Rightarrow> ScreenElement0" where
  "body_step0 line s =
     (case step0 line \<lparr>screens0 = [], currentScreen0 = Some s\<rparr> of
        Inl e \<Rightarrow> s
      | Inr q \<Rightarrow> (case currentScreen0 q of None \<Rightarrow> s | Some s' \<Rightarrow> s'))"

text \<open>
  The blocks of a document: every header line, in document order, with the lines that
  follow it up to the next header line.
\<close>

fun blocks :: "string list \<Rightarrow> (string \<times> string list) list" where
  "blocks [] = []"
| "blocks (l # ls) =
     (if is_header l then (l, takeWhile (\<lambda>x. \<not> is_header x) ls) # blocks ls
      else blocks ls)"

definition screen_of :: "string \<times> string list \<Rightarrow> ScreenElement" where
  "screen_of hb = fold body_step (snd hb) (new_screen (slice_between 1 1 (fst hb)))"

definition screen_of0 :: "string \<times> string list \<Rightarrow> ScreenElement0" where
  "screen_of0 hb = fold body_step0 (snd hb) (new_screen0 (slice_between 1 1 (fst hb)))"

text \<open>What a single line adds to a screen that has nothing yet.\<close>

definition line_components :: "string \<Rightarrow> component list" where
  "line_components l =
     (case components (body_step l (new_screen [])) of None \<Rightarrow> [] | Some cs \<Rightarrow> cs)"

definition line_transitions :: "string \<Rightarrow> transition list" where
  "line_transitions l =
     (case transitions (body_step l (new_screen [])) of None \<Rightarrow> [] | Some ts \<Rightarrow> ts)"

definition line_components0 :: "string \<Rightarrow> component0 list" where
  "line_components0 l = components0 (body_step0 l (new_screen0 []))"

definition line_transitions0 :: "string \<Rightarrow> transition0 list" where
  "line_transitions0 l = transitions0 (body_step0 l (new_screen0 []))"


text \<open>Position \<open>i\<close> holds the last screen that bears its name.\<close>

definition last_named :: "string list \<Rightarrow> nat \<Rightarrow> bool" where
  "last_named names i = (i < length names \<and> names ! i \<notin> set (drop (Suc i) names))"

section \<open>Strings: splitting\<close>

lemma split_str_not_Nil: "split_str sep s \<noteq> []"
  by (induction s) (auto split: list.splits)

lemma split_str_includes:
  "sep \<noteq> [] \<Longrightarrow> str_includes sep s \<Longrightarrow> \<exists>a t r. split_str sep s = a # t # r"
proof (induction s)
  case Nil
  then show ?case by simp
next
  case (Cons c cs)
  show ?case
  proof (cases "startsWith sep (c # cs)")
    case True
    then show ?thesis
      using split_str_not_Nil[of sep "drop (length sep - 1) cs"]
      by (cases "split_str sep (drop (length sep - 1) cs)") auto
  next
    case False
    with Cons.prems have "str_includes sep cs" by simp
    from Cons.IH[OF Cons.prems(1) this] obtain a t r where "split_str sep cs = a # t # r"
      by blast
    with False show ?thesis by simp
  qed
qed

section \<open>One loop iteration\<close>

lemma is_header_not_empty: "is_header l \<Longrightarrow> l \<noteq> []"
  by (auto simp: is_header_def startsWith_def)

lemma step_header:
  "is_header l \<Longrightarrow>
   step l p = Inr \<lparr>screens = finish p,
                   currentScreen = Some (new_screen (slice_between 1 1 l))\<rparr>"
  by (frule is_header_not_empty) (simp add: step_def finish_def)

lemma step_no_current:
  "\<not> is_header l \<Longrightarrow> currentScreen p = None \<Longrightarrow> step l p = Inr p"
  by (simp add: step_def Let_def split: option.splits prod.splits)

lemma step_body:
  assumes "\<not> is_header l" "currentScreen p = Some s" "wf_screen s"
  shows "step l p = Inr (p\<lparr>currentScreen := Some (body_step l s)\<rparr>)
       \<and> wf_screen (body_step l s)"
  using assms split_str_not_Nil[of "'':''" "slice_from 2 l"]
  by (cases "split_str '':'' (slice_from 2 l)")
     (auto simp: step_def body_step_def wf_screen_def Let_def set_current_def
        push_component_def push_transition_def split: option.splits prod.splits)

lemma step0_header:
  "is_header l \<Longrightarrow>
   step0 l p = Inr \<lparr>screens0 = finish0 p,
                    currentScreen0 = Some (new_screen0 (slice_between 1 1 l))\<rparr>"
  by (frule is_header_not_empty) (simp add: step0_def finish0_def)

lemma step0_no_current:
  "\<not> is_header l \<Longrightarrow> currentScreen0 p = None \<Longrightarrow> step0 l p = Inr p"
  by (simp add: step0_def)

lemma step0_body:
  assumes "\<not> is_header l" "currentScreen0 p = Some s"
  shows "step0 l p = Inr (p\<lparr>currentScreen0 := Some (body_step0 l s)\<rparr>)"
proof (cases "str_includes ''=>'' l")
  case True
  from split_str_includes[OF _ this] obtain a t r where "split_str ''=>'' l = a # t # r"
    by blast
  with assms True show ?thesis
    by (simp add: step0_def body_step0_def Let_def)
next
  case False
  with assms show ?thesis
    by (simp add: step0_def body_step0_def Let_def)
qed

section \<open>The loop as a whole\<close>

lemma parse_loop_finish:
  "\<forall>s. currentScreen p = Some s \<longrightarrow> wf_screen s \<Longrightarrow>
   \<exists>q. parse_loop ls p = Inr q \<and>
       finish q =
         (case currentScreen p of
            None \<Rightarrow> screens p @ map screen_of (blocks ls)
          | Some s \<Rightarrow>
              screens p @ [fold body_step (takeWhile (\<lambda>x. \<not> is_header x) ls) s]
                @ map screen_of (blocks ls))"
proof (induction ls arbitrary: p)
  case Nil
  then show ?case by (simp add: finish_def split: option.splits)
next
  case (Cons l ls)
  show ?case
  proof (cases "is_header l")
    case True
    let ?p' = "\<lparr>screens = finish p,
                currentScreen = Some (new_screen (slice_between 1 1 l))\<rparr>"
    have wf: "\<forall>s. currentScreen ?p' = Some s \<longrightarrow> wf_screen s"
      by (simp add: wf_screen_def new_screen_def)
    from Cons.IH[OF wf] True show ?thesis
      by (auto simp: step_header screen_of_def finish_def split: option.splits)
  next
    case False
    show ?thesis
    proof (cases "currentScreen p")
      case None
      with False Cons.IH[of p] show ?thesis
        by (simp add: step_no_current)
    next
      case (Some s)
      with Cons.prems have wfs: "wf_screen s" by simp
      let ?p' = "p\<lparr>currentScreen := Some (body_step l s)\<rparr>"
      from step_body[OF False Some wfs]
      have st: "step l p = Inr ?p'" and wf': "wf_screen (body_step l s)" by simp_all
      from wf' have "\<forall>s. currentScreen ?p' = Some s \<longrightarrow> wf_screen s" by simp
      from Cons.IH[OF this] st False Some show ?thesis by simp
    qed
  qed
qed

lemma parse_lines_blocks: "parse_lines ls = Inr (map screen_of (blocks ls))"
proof -
  have "\<forall>s. currentScreen \<lparr>screens = [], currentScreen = None\<rparr> = Some s \<longrightarrow> wf_screen s"
    by simp
  from parse_loop_finish[OF this, of ls] show ?thesis
    by (auto simp: parse_lines_def)
qed

lemma parse_loop0_finish:
  "\<exists>q. parse_loop0 ls p = Inr q \<and>
       finish0 q =
         (case currentScreen0 p of
            None \<Rightarrow> screens0 p @ map screen_of0 (blocks ls)
          | Some s \<Rightarrow>
              screens0 p @ [fold body_step0 (takeWhile (\<lambda>x. \<not> is_header x) ls) s]
                @ map screen_of0 (blocks ls))"
proof (induction ls arbitrary: p)
  case Nil
  then show ?case by (simp add: finish0_def split: option.splits)
next
  case (Cons l ls)
  show ?case
  proof (cases "is_header l")
    case True
    from Cons.IH[of "\<lparr>screens0 = finish0 p,
                      currentScreen0 = Some (new_screen0 (slice_between 1 1 l))\<rparr>"]
      True show ?thesis
      by (auto simp: step0_header screen_of0_def finish0_def split: option.splits)
  next
    case False
    show ?thesis
    proof (cases "currentScreen0 p")
      case None
      with False Cons.IH[of p] show ?thesis
        by (simp add: step0_no_current)
    next
      case (Some s)
      from Cons.IH[of "p\<lparr>currentScreen0 := Some (body_step0 l s)\<rparr>"]
        step0_body[OF False Some] False Some
      show ?thesis by simp
    qed
  qed
qed

lemma parse_lines0_blocks: "parse_lines0 ls = Inr (map screen_of0 (blocks ls))"
  using parse_loop0_finish[of ls "\<lparr>screens0 = [], currentScreen0 = None\<rparr>"]
  by (auto simp: parse_lines0_def)

lemma blocks_headers: "map fst (blocks ls) = filter is_header ls"
  by (induction ls) simp_all

lemma blocks_body:
  "(h, b) \<in> set (blocks ls) \<Longrightarrow> is_header h \<and> (\<forall>l\<in>set b. \<not> is_header l)"
  by (induction ls) (auto split: if_splits dest: set_takeWhileD)

section \<open>What a block contributes to its screen\<close>

lemma body_step_fields:
  assumes "\<not> is_header l" "wf_screen s" "components s = Some cs" "transitions s = Some ts"
  shows "name (body_step l s) = name s
       \<and> components (body_step l s) = Some (cs @ line_components l)
       \<and> transitions (body_step l s) = Some (ts @ line_transitions l)"
  using assms split_str_not_Nil[of "'':''" "slice_from 2 l"]
  by (cases "split_str '':'' (slice_from 2 l)")
     (auto simp: step_def body_step_def wf_screen_def Let_def set_current_def new_screen_def
        line_components_def line_transitions_def
        push_component_def push_transition_def split: option.splits prod.splits)

lemma fold_body_step_fields:
  "\<forall>l\<in>set b. \<not> is_header l \<Longrightarrow> wf_screen s \<Longrightarrow> components s = Some cs \<Longrightarrow>
   transitions s = Some ts \<Longrightarrow>
   name (fold body_step b s) = name s
   \<and> components (fold body_step b s) = Some (cs @ concat (map line_components b))
   \<and> transitions (fold body_step b s) = Some (ts @ concat (map line_transitions b))"
proof (induction b arbitrary: s cs ts)
  case Nil
  then show ?case by simp
next
  case (Cons l b)
  from Cons.prems have nh: "\<not> is_header l" by simp
  from step_body[OF nh _ Cons.prems(2), of "\<lparr>screens = [], currentScreen = Some s\<rparr>"]
  have wf': "wf_screen (body_step l s)" by simp
  note f = body_step_fields[OF nh Cons.prems(2,3,4)]
  from Cons.IH[OF _ wf', of "cs @ line_components l" "ts @ line_transitions l"] f Cons.prems(1)
  show ?case by simp
qed

lemma body_step0_fields:
  assumes "\<not> is_header l"
  shows "name0 (body_step0 l s) = name0 s
       \<and> components0 (body_step0 l s) = components0 s @ line_components0 l
       \<and> transitions0 (body_step0 l s) = transitions0 s @ line_transitions0 l"
proof (cases "str_includes ''=>'' l")
  case True
  from split_str_includes[OF _ this] obtain a t r where "split_str ''=>'' l = a # t # r"
    by blast
  with assms True show ?thesis
    by (simp add: step0_def body_step0_def Let_def line_components0_def line_transitions0_def
          new_screen0_def)
next
  case False
  with assms show ?thesis
    by (simp add: step0_def body_step0_def Let_def line_components0_def line_transitions0_def
          new_screen0_def)
qed

lemma fold_body_step0_fields:
  "\<forall>l\<in>set b. \<not> is_header l \<Longrightarrow>
   name0 (fold body_step0 b s) = name0 s
   \<and> components0 (fold body_step0 b s) = components0 s @ concat (map line_components0 b)
   \<and> transitions0 (fold body_step0 b s) = transitions0 s @ concat (map line_transitions0 b)"
proof (induction b arbitrary: s)
  case Nil
  then show ?case by simp
next
  case (Cons l b)
  from Cons.prems have nh: "\<not> is_header l" by simp
  from Cons.IH[of "body_step0 l s"] body_step0_fields[OF nh, of s] Cons.prems
  show ?case by simp
qed

section \<open>Single lines of \<^verbatim>\<open>src/code.ts\<close>\<close>

lemma starts_arrow_brace_facts:
  "startsWith ''={'' l \<Longrightarrow>
     l \<noteq> [] \<and> \<not> is_header l \<and> \<not> startsWith ''//'' l \<and> \<not> is_component_line l
     \<and> \<not> startsWith ''=>'' l"
  by (cases l; cases "tl l")
     (auto simp: startsWith_def is_header_def is_component_line_def)

lemma step_conditional:
  assumes "startsWith ''={'' l" "match_condition l = Some (g1, g2)"
    "currentScreen p = Some s" "transitions s = Some ts"
  shows "step l p = Inr (p\<lparr>currentScreen := Some (s\<lparr>transitions :=
           Some (ts @ [\<lparr>to = trim g2, condition = Some (trim g1)\<rparr>])\<rparr>)\<rparr>)"
  using starts_arrow_brace_facts[OF assms(1)] assms
  by (simp add: step_def set_current_def push_transition_def)

lemma match_logged_in:
  "match_condition ''={logged in}=>Home'' = Some (''logged in'', ''Home'')"
  by code_simp

lemma trim_logged_in: "trim ''logged in'' = ''logged in'' \<and> trim ''Home'' = ''Home''"
  by code_simp

section \<open>Blocks of a single screen\<close>

lemma blocks_no_header: "\<forall>l\<in>set b. \<not> is_header l \<Longrightarrow> blocks b = []"
  by (induction b) simp_all

lemma takeWhile_no_header:
  "\<forall>l\<in>set b. \<not> is_header l \<Longrightarrow> takeWhile (\<lambda>x. \<not> is_header x) b = b"
  by (induction b) simp_all

lemma screen_of_single:
  "is_header h \<Longrightarrow> \<forall>l\<in>set b. \<not> is_header l \<Longrightarrow> parse_lines (h # b) = Inr [screen_of (h, b)]"
  by (simp add: parse_lines_blocks blocks_no_header takeWhile_no_header)

lemma screen_of0_single:
  "is_header h \<Longrightarrow> \<forall>l\<in>set b. \<not> is_header l \<Longrightarrow> parse_lines0 (h # b) = Inr [screen_of0 (h, b)]"
  by (simp add: parse_lines0_blocks blocks_no_header takeWhile_no_header)

lemma wf_new_screen: "wf_screen (new_screen n)"
  by (simp add: wf_screen_def new_screen_def)

section \<open>Transitions and requirements in \<^verbatim>\<open>src/code.ts\<close>\<close>

lemma starts_arrow_facts:
  "startsWith ''=>'' l \<Longrightarrow>
     l \<noteq> [] \<and> \<not> is_header l \<and> \<not> startsWith ''//'' l \<and> \<not> is_component_line l"
  by (cases l; cases "tl l")
     (auto simp: startsWith_def is_header_def is_component_line_def)

lemma step_arrow:
  assumes "startsWith ''=>'' l" "currentScreen p = Some s" "transitions s = Some ts"
  shows "step l p = Inr (p\<lparr>currentScreen := Some (s\<lparr>transitions :=
           Some (ts @ [\<lparr>to = trim (slice_from 2 l), condition = None\<rparr>])\<rparr>)\<rparr>)"
  using starts_arrow_facts[OF assms(1)] assms
  by (simp add: step_def set_current_def push_transition_def)











section \<open>Screens and blocks\<close>

lemma screen_of_fields:
  assumes "(h, b) \<in> set (blocks ls)"
  shows "name (screen_of (h, b)) = slice_between 1 1 h
       \<and> components (screen_of (h, b)) = Some (concat (map line_components b))
       \<and> transitions (screen_of (h, b)) = Some (concat (map line_transitions b))"
proof -
  from blocks_body[OF assms] have nh: "\<forall>l\<in>set b. \<not> is_header l" by simp
  from fold_body_step_fields[OF nh wf_new_screen, of "slice_between 1 1 h" "[]" "[]"]
  show ?thesis by (simp add: screen_of_def new_screen_def)
qed

lemma screen_of0_fields:
  assumes "(h, b) \<in> set (blocks ls)"
  shows "name0 (screen_of0 (h, b)) = slice_between 1 1 h
       \<and> components0 (screen_of0 (h, b)) = concat (map line_components0 b)
       \<and> transitions0 (screen_of0 (h, b)) = concat (map line_transitions0 b)"
proof -
  from blocks_body[OF assms] have nh: "\<forall>l\<in>set b. \<not> is_header l" by simp
  from fold_body_step0_fields[OF nh, of "new_screen0 (slice_between 1 1 h)"]
  show ?thesis by (simp add: screen_of0_def new_screen0_def)
qed

lemma header_name_empty: "is_header h \<Longrightarrow> (slice_between 1 1 h = [] \<longleftrightarrow> h = ''[]'')"
proof -
  assume h: "is_header h"
  show ?thesis
  proof (cases h)
    case Nil
    with h show ?thesis by (simp add: is_header_def startsWith_def)
  next
    case (Cons a t)
    show ?thesis
    proof (cases t)
      case Nil
      with Cons h show ?thesis by (auto simp: is_header_def startsWith_def endsWith_def)
    next
      case (Cons b u)
      with \<open>h = a # t\<close> h show ?thesis
        by (cases u) (auto simp: is_header_def startsWith_def endsWith_def slice_between_def)
    qed
  qed
qed

lemma blocks_dropWhile: "blocks (dropWhile (\<lambda>l. \<not> is_header l) ls) = blocks ls"
  by (induction ls) simp_all

section \<open>The table of placed nodes\<close>

lemma place_screens_other:
  "n \<notin> set (map name ss) \<Longrightarrow> place_screens i ss m n = m n"
  by (induction ss arbitrary: i m) auto

lemma place_screens_last:
  "last_named (map name ss) j \<Longrightarrow>
   place_screens i ss m (name (ss ! j))
     = Some (createScreenNode (ss ! j) (0 + int (i + j) * spacing * 2) 0)"
proof (induction ss arbitrary: i m j)
  case Nil
  then show ?case by (simp add: last_named_def)
next
  case (Cons s ss)
  show ?case
  proof (cases j)
    case 0
    with Cons.prems have "name s \<notin> set (map name ss)" by (simp add: last_named_def)
    from place_screens_other[OF this] 0 show ?thesis by simp
  next
    case (Suc k)
    with Cons.prems have "last_named (map name ss) k" by (auto simp: last_named_def)
    from Cons.IH[OF this, of "Suc i"] Suc show ?thesis by simp
  qed
qed

lemma last_named_exists:
  "n \<in> set names \<Longrightarrow> \<exists>j. last_named names j \<and> names ! j = n"
proof (induction names)
  case Nil
  then show ?case by simp
next
  case (Cons x xs)
  show ?case
  proof (cases "n \<in> set xs")
    case True
    from Cons.IH[OF this] obtain j where "last_named xs j" "xs ! j = n" by blast
    then have "last_named (x # xs) (Suc j) \<and> (x # xs) ! Suc j = n"
      by (simp add: last_named_def)
    then show ?thesis by blast
  next
    case False
    with Cons.prems have "last_named (x # xs) 0 \<and> (x # xs) ! 0 = n"
      by (auto simp: last_named_def)
    then show ?thesis by blast
  qed
qed

lemma screenNodes_Some:
  assumes "screenNodes ss n = Some v"
  shows "\<exists>j. last_named (map name ss) j \<and> name (ss ! j) = n \<and> v = node_at ss j"
proof (cases "n \<in> set (map name ss)")
  case True
  from last_named_exists[OF this] obtain j where j: "last_named (map name ss) j"
    "map name ss ! j = n" by blast
  then have nj: "name (ss ! j) = n" by (simp add: last_named_def)
  from place_screens_last[OF j(1), of 0 Map.empty] nj assms
  have "v = node_at ss j" by (simp add: screenNodes_def node_at_def)
  with j(1) nj show ?thesis by blast
next
  case False
  from place_screens_other[OF this, of 0 Map.empty] assms show ?thesis
    by (simp add: screenNodes_def)
qed

lemma connect_transitions_mem:
  "c \<in> set (connect_transitions m src ts out) \<Longrightarrow>
   c \<in> set out \<or> (\<exists>t\<in>set ts. \<exists>tgt. m (to t) = Some tgt
                      \<and> c = \<lparr>connectorStart = src, connectorEnd = tgt\<rparr>)"
proof (induction ts arbitrary: out)
  case Nil
  then show ?case by simp
next
  case (Cons t ts)
  show ?case
  proof (cases "m (to t)")
    case None
    with Cons.prems have "c \<in> set (connect_transitions m src ts out)" by simp
    from Cons.IH[OF this] show ?thesis by auto
  next
    case (Some tgt)
    with Cons.prems have "c \<in> set (connect_transitions m src ts
        (out @ [\<lparr>connectorStart = src, connectorEnd = tgt\<rparr>]))" by simp
    from Cons.IH[OF this] Some show ?thesis by auto
  qed
qed

lemma connect_screens_mem:
  "c \<in> set (connect_screens m ss out) \<Longrightarrow>
   c \<in> set out \<or> (\<exists>s\<in>set ss. \<exists>ts src tgt. \<exists>t\<in>set ts. transitions s = Some ts
                      \<and> m (name s) = Some src \<and> m (to t) = Some tgt
                      \<and> c = \<lparr>connectorStart = src, connectorEnd = tgt\<rparr>)"
proof (induction ss arbitrary: out)
  case Nil
  then show ?case by simp
next
  case (Cons s ss)
  show ?case
  proof (cases "m (name s)")
    case None
    with Cons.prems have "c \<in> set (connect_screens m ss out)" by simp
    from Cons.IH[OF this] show ?thesis by auto
  next
    case (Some src)
    show ?thesis
    proof (cases "transitions s")
      case None
      with Some Cons.prems have "c \<in> set (connect_screens m ss out)" by simp
      from Cons.IH[OF this] show ?thesis by auto
    next
      case (Some ts)
      with \<open>m (name s) = Some src\<close> Cons.prems
      have "c \<in> set (connect_screens m ss (connect_transitions m src ts out))" by simp
      from Cons.IH[OF this] show ?thesis
      proof
        assume "c \<in> set (connect_transitions m src ts out)"
        from connect_transitions_mem[OF this] Some \<open>m (name s) = Some src\<close>
        show ?thesis by fastforce
      next
        assume "\<exists>s\<in>set ss. \<exists>ts src tgt. \<exists>t\<in>set ts. transitions s = Some ts
                      \<and> m (name s) = Some src \<and> m (to t) = Some tgt
                      \<and> c = \<lparr>connectorStart = src, connectorEnd = tgt\<rparr>"
        then show ?thesis by auto
      qed
    qed
  qed
qed

lemma render_connector:
  assumes "c \<in> set (render ss)"
  shows "\<exists>s\<in>set ss. \<exists>ts. \<exists>t\<in>set ts. \<exists>i j. transitions s = Some ts
           \<and> last_named (map name ss) i \<and> name (ss ! i) = name s
           \<and> last_named (map name ss) j \<and> name (ss ! j) = to t
           \<and> connectorStart c = node_at ss i \<and> connectorEnd c = node_at ss j"
proof -
  from connect_screens_mem[OF assms[unfolded render_def]]
  obtain s ts src tgt t where a: "s \<in> set ss" "t \<in> set ts" "transitions s = Some ts"
    "screenNodes ss (name s) = Some src" "screenNodes ss (to t) = Some tgt"
    "c = \<lparr>connectorStart = src, connectorEnd = tgt\<rparr>"
    by auto
  from screenNodes_Some[OF a(4)] obtain i where i: "last_named (map name ss) i"
    "name (ss ! i) = name s" "src = node_at ss i" by blast
  from screenNodes_Some[OF a(5)] obtain j where j: "last_named (map name ss) j"
    "name (ss ! j) = to t" "tgt = node_at ss j" by blast
  from a(1,2,3) i(1,2) j(1,2) a(6)[unfolded i(3) j(3)] show ?thesis
    by (intro bexI[of _ s] exI[of _ ts] bexI[of _ t] exI[of _ i] exI[of _ j]) simp_all
qed

lemma place_screens0_other:
  "n \<notin> set (map name0 ss) \<Longrightarrow> place_screens0 i ss m n = m n"
  by (induction ss arbitrary: i m) auto

lemma place_screens0_last:
  "last_named (map name0 ss) j \<Longrightarrow>
   place_screens0 i ss m (name0 (ss ! j))
     = Some (createScreenNode0 (ss ! j) (100 + int (i + j) * spacing0) 100)"
proof (induction ss arbitrary: i m j)
  case Nil
  then show ?case by (simp add: last_named_def)
next
  case (Cons s ss)
  show ?case
  proof (cases j)
    case 0
    with Cons.prems have "name0 s \<notin> set (map name0 ss)" by (simp add: last_named_def)
    from place_screens0_other[OF this] 0 show ?thesis by simp
  next
    case (Suc k)
    with Cons.prems have "last_named (map name0 ss) k" by (auto simp: last_named_def)
    from Cons.IH[OF this, of "Suc i"] Suc show ?thesis by simp
  qed
qed

lemma screenNodes0_Some:
  assumes "screenNodes0 ss n = Some v"
  shows "\<exists>j. last_named (map name0 ss) j \<and> name0 (ss ! j) = n \<and> v = node_at0 ss j"
proof (cases "n \<in> set (map name0 ss)")
  case True
  from last_named_exists[OF this] obtain j where j: "last_named (map name0 ss) j"
    "map name0 ss ! j = n" by blast
  then have nj: "name0 (ss ! j) = n" by (simp add: last_named_def)
  from place_screens0_last[OF j(1), of 0 Map.empty] nj assms
  have "v = node_at0 ss j" by (simp add: screenNodes0_def node_at0_def)
  with j(1) nj show ?thesis by blast
next
  case False
  from place_screens0_other[OF this, of 0 Map.empty] assms show ?thesis
    by (simp add: screenNodes0_def)
qed

lemma connect_transitions0_mem:
  "c \<in> set (connect_transitions0 m src ts out) \<Longrightarrow>
   c \<in> set out \<or> (\<exists>t\<in>set ts. \<exists>tgt. m (to0 t) = Some tgt
                      \<and> c = \<lparr>connectorStart0 = src, connectorEnd0 = tgt\<rparr>)"
proof (induction ts arbitrary: out)
  case Nil
  then show ?case by simp
next
  case (Cons t ts)
  show ?case
  proof (cases "m (to0 t)")
    case None
    with Cons.prems have "c \<in> set (connect_transitions0 m src ts out)" by simp
    from Cons.IH[OF this] show ?thesis by auto
  next
    case (Some tgt)
    with Cons.prems have "c \<in> set (connect_transitions0 m src ts
        (out @ [\<lparr>connectorStart0 = src, connectorEnd0 = tgt\<rparr>]))" by simp
    from Cons.IH[OF this] Some show ?thesis by auto
  qed
qed

lemma connect_screens0_mem:
  "c \<in> set (connect_screens0 m ss out) \<Longrightarrow>
   c \<in> set out \<or> (\<exists>s\<in>set ss. \<exists>src tgt. \<exists>t\<in>set (transitions0 s).
                      m (name0 s) = Some src \<and> m (to0 t) = Some tgt
                      \<and> c = \<lparr>connectorStart0 = src, connectorEnd0 = tgt\<rparr>)"
proof (induction ss arbitrary: out)
  case Nil
  then show ?case by simp
next
  case (Cons s ss)
  show ?case
  proof (cases "m (name0 s)")
    case None
    with Cons.prems have "c \<in> set (connect_screens0 m ss out)" by simp
    from Cons.IH[OF this] show ?thesis by auto
  next
    case (Some src)
    with Cons.prems
    have "c \<in> set (connect_screens0 m ss (connect_transitions0 m src (transitions0 s) out))"
      by simp
    from Cons.IH[OF this] show ?thesis
    proof
      assume "c \<in> set (connect_transitions0 m src (transitions0 s) out)"
      from connect_transitions0_mem[OF this] Some show ?thesis by fastforce
    next
      assume "\<exists>s\<in>set ss. \<exists>src tgt. \<exists>t\<in>set (transitions0 s).
                      m (name0 s) = Some src \<and> m (to0 t) = Some tgt
                      \<and> c = \<lparr>connectorStart0 = src, connectorEnd0 = tgt\<rparr>"
      then show ?thesis by auto
    qed
  qed
qed

lemma render0_connector:
  assumes "c \<in> set (render0 ss)"
  shows "\<exists>s\<in>set ss. \<exists>t\<in>set (transitions0 s). \<exists>i j.
             last_named (map name0 ss) i \<and> name0 (ss ! i) = name0 s
           \<and> last_named (map name0 ss) j \<and> name0 (ss ! j) = to0 t
           \<and> connectorStart0 c = node_at0 ss i \<and> connectorEnd0 c = node_at0 ss j"
proof -
  from connect_screens0_mem[OF assms[unfolded render0_def]]
  obtain s src tgt t where a: "s \<in> set ss" "t \<in> set (transitions0 s)"
    "screenNodes0 ss (name0 s) = Some src" "screenNodes0 ss (to0 t) = Some tgt"
    "c = \<lparr>connectorStart0 = src, connectorEnd0 = tgt\<rparr>"
    by auto
  from screenNodes0_Some[OF a(3)] obtain i where i: "last_named (map name0 ss) i"
    "name0 (ss ! i) = name0 s" "src = node_at0 ss i" by blast
  from screenNodes0_Some[OF a(4)] obtain j where j: "last_named (map name0 ss) j"
    "name0 (ss ! j) = to0 t" "tgt = node_at0 ss j" by blast
  from a(1,2) i(1,2) j(1,2) a(5)[unfolded i(3) j(3)] show ?thesis
    by (intro bexI[of _ s] bexI[of _ t] exI[of _ i] exI[of _ j]) simp_all
qed

text \<open>Nodes placed for different positions differ: they lie at different abscissas.\<close>

lemma node_at_inj: "node_at ss a = node_at ss b \<Longrightarrow> a = b"
proof -
  assume "node_at ss a = node_at ss b"
  then have "node_x (node_at ss a) = node_x (node_at ss b)" by simp
  then show ?thesis
    by (simp add: node_at_def createScreenNode_def spacing_def Let_def)
qed

lemma node_at0_inj: "node_at0 ss a = node_at0 ss b \<Longrightarrow> a = b"
proof -
  assume "node_at0 ss a = node_at0 ss b"
  then have "frame_x (node_at0 ss a) = frame_x (node_at0 ss b)" by simp
  then show ?thesis
    by (simp add: node_at0_def createScreenNode0_def spacing0_def)
qed

section \<open>Claims\<close>

subsection \<open>C1: an action line with an arrow\<close>

text \<open>
  C1, as stated, against \<^verbatim>\<open>src/code.ts\<close>: on the text \<^verbatim>\<open>[A]\<close>, \<^verbatim>\<open>A X => B\<close> the components
  of the only screen are not the single Action component \<open>X\<close>, and the screen has no
  transition at all. That parser has no rule for an action line with an arrow: the
  line starts with \<^verbatim>\<open>A \<close> and is a component declaration.
\<close>

theorem C1_code_ts_counterexample:
  "map_sum id (map components) (parse (''[A]'' @ newline @ ''A X => B'' @ newline))
     \<noteq> Inr [Some [\<lparr>ctype = Action, cname = ''X''\<rparr>]]
   \<and> map_sum id (map transitions) (parse (''[A]'' @ newline @ ''A X => B'' @ newline))
     = Inr [Some []]"
  by code_simp

text \<open>
  C1, amended: on the text \<^verbatim>\<open>[A]\<close>, \<^verbatim>\<open>A X => B\<close> the parser of the second source file
  returns exactly one screen named \<open>A\<close>, whose components are exactly one Action
  component named \<open>X\<close> and whose transitions are exactly one transition from \<open>X\<close> to
  \<open>B\<close>: the single line produces both. The parser of \<^verbatim>\<open>src/code.ts\<close> returns one screen
  named \<open>A\<close> with the single Action component named \<^verbatim>\<open>X => B\<close> and no transition.
\<close>

theorem C1_dual_effect:
  "parse0 (''[A]'' @ newline @ ''A X => B'' @ newline)
     = Inr [\<lparr>name0 = ''A'',
             components0 = [\<lparr>ctype0 = Action0, cname0 = ''X''\<rparr>],
             transitions0 = [\<lparr>from0 = ''X'', to0 = ''B''\<rparr>],
             sections0 = []\<rparr>]
   \<and> parse (''[A]'' @ newline @ ''A X => B'' @ newline)
     = Inr [\<lparr>etype = Screen, name = ''A'', requirements = Some no_requirements,
             components = Some [\<lparr>ctype = Action, cname = ''X => B''\<rparr>],
             transitions = Some []\<rparr>]"
  by code_simp

subsection \<open>C2: a conditional transition\<close>

text \<open>
  C2, as stated, against the second source file: on the text \<^verbatim>\<open>[Login]\<close>,
  \<^verbatim>\<open>={logged in}=>Home\<close> the line does contribute a component to the screen. That
  parser has no conditional transitions; the line contains an arrow and goes through
  the branch of the action lines.
\<close>

theorem C2_second_parser_counterexample:
  "map_sum id (map components0) (parse0 (''[Login]'' @ newline @ ''={logged in}=>Home''))
     = Inr [[\<lparr>ctype0 = Action0, cname0 = ''logged in}''\<rparr>]]"
  by code_simp

text \<open>
  C2, amended: in the parser of \<^verbatim>\<open>src/code.ts\<close>, the line \<^verbatim>\<open>={logged in}=>Home\<close> appends
  to the open screen one transition with condition \<^verbatim>\<open>logged in\<close> and target \<open>Home\<close>
  and changes nothing else; it contributes that transition and no component. On the
  text \<^verbatim>\<open>[Login]\<close>, \<^verbatim>\<open>={logged in}=>Home\<close> the result is the screen \<open>Login\<close> with that
  transition and no component.
\<close>

theorem C2_conditional_transition:
  "(currentScreen p = Some s \<and> transitions s = Some ts \<longrightarrow>
      step ''={logged in}=>Home'' p
        = Inr (p\<lparr>currentScreen := Some (s\<lparr>transitions :=
                 Some (ts @ [\<lparr>to = ''Home'', condition = Some ''logged in''\<rparr>])\<rparr>)\<rparr>))
   \<and> line_components ''={logged in}=>Home'' = []
   \<and> line_transitions ''={logged in}=>Home''
       = [\<lparr>to = ''Home'', condition = Some ''logged in''\<rparr>]
   \<and> parse (''[Login]'' @ newline @ ''={logged in}=>Home'')
       = Inr [\<lparr>etype = Screen, name = ''Login'', requirements = Some no_requirements,
               components = Some [],
               transitions = Some [\<lparr>to = ''Home'', condition = Some ''logged in''\<rparr>]\<rparr>]"
proof (intro conjI)
  have f: "startsWith ''={'' ''={logged in}=>Home''" by (simp add: startsWith_def)
  show "currentScreen p = Some s \<and> transitions s = Some ts \<longrightarrow>
      step ''={logged in}=>Home'' p
        = Inr (p\<lparr>currentScreen := Some (s\<lparr>transitions :=
                 Some (ts @ [\<lparr>to = ''Home'', condition = Some ''logged in''\<rparr>])\<rparr>)\<rparr>)"
    using step_conditional[OF f, of "''logged in''" "''Home''" p s ts] match_logged_in
      trim_logged_in
    by simp
  show "line_components ''={logged in}=>Home'' = []"
    by code_simp
  show "line_transitions ''={logged in}=>Home''
       = [\<lparr>to = ''Home'', condition = Some ''logged in''\<rparr>]"
    by code_simp
  show "parse (''[Login]'' @ newline @ ''={logged in}=>Home'')
       = Inr [\<lparr>etype = Screen, name = ''Login'', requirements = Some no_requirements,
               components = Some [],
               transitions = Some [\<lparr>to = ''Home'', condition = Some ''logged in''\<rparr>]\<rparr>]"
    by code_simp
qed

text \<open>C2, witness: the line read while the fresh screen \<open>Login\<close> is open.\<close>

theorem C2_conditional_transition_witness:
  "step ''={logged in}=>Home'' \<lparr>screens = [], currentScreen = Some (new_screen ''Login'')\<rparr>
     = Inr \<lparr>screens = [],
            currentScreen = Some ((new_screen ''Login'')\<lparr>transitions :=
               Some [\<lparr>to = ''Home'', condition = Some ''logged in''\<rparr>]\<rparr>)\<rparr>"
  using C2_conditional_transition
    [of "\<lparr>screens = [], currentScreen = Some (new_screen ''Login'')\<rparr>"
        "new_screen ''Login''" "[]"]
  by (simp add: new_screen_def)

subsection \<open>C3: lines that match no pattern\<close>

text \<open>
  C3 at the text \<^verbatim>\<open>[A]\<close>, \<^verbatim>\<open>go to => home\<close>: the second line is prose that contains an
  arrow and starts with no action prefix. The parser of the second source file takes
  it through the branch of the action lines, drops its first two characters and adds
  the transition from \<^verbatim>\<open> to\<close> to \<open>home\<close> and the Action component \<^verbatim>\<open> to\<close>, so the result
  differs from the one without the line. The parser of \<^verbatim>\<open>src/code.ts\<close> returns the
  screen \<open>A\<close> as it is without the line.
\<close>

theorem C3_prose_arrow_second_parser:
  "parse0 (''[A]'' @ newline @ ''go to => home'')
     = Inr [\<lparr>name0 = ''A'',
             components0 = [\<lparr>ctype0 = Action0, cname0 = '' to''\<rparr>],
             transitions0 = [\<lparr>from0 = '' to'', to0 = ''home''\<rparr>],
             sections0 = []\<rparr>]
   \<and> parse0 ''[A]'' = Inr [new_screen0 ''A'']
   \<and> parse (''[A]'' @ newline @ ''go to => home'') = Inr [new_screen ''A'']
   \<and> parse ''[A]'' = Inr [new_screen ''A'']"
  by code_simp

subsection \<open>C4: a requirement written twice\<close>



subsection \<open>C5: an unconditional transition\<close>

text \<open>
  C5, as stated, against the second source file: inside the screen \<open>A\<close> the line
  \<^verbatim>\<open>=> B\<close> does append a component, an Action with the empty name. That parser has no
  unconditional transitions; the line contains an arrow and goes through the branch of
  the action lines.
\<close>

theorem C5_second_parser_counterexample:
  "map_sum id (map components0) (parse0 (''[A]'' @ newline @ ''=> B''))
     = Inr [[\<lparr>ctype0 = Action0, cname0 = []\<rparr>]]"
  by code_simp

text \<open>
  C5, amended: in the parser of \<^verbatim>\<open>src/code.ts\<close>, every line that starts with \<^verbatim>\<open>=>\<close>,
  read while a screen is open, appends to that screen exactly one transition whose
  target is the rest of the line after \<^verbatim>\<open>=>\<close>, trimmed, with no condition, and changes
  nothing else: the line contributes that transition and no component.
\<close>

theorem C5_unconditional_transition:
  assumes "startsWith ''=>'' l"
  shows "(currentScreen p = Some s \<and> transitions s = Some ts \<longrightarrow>
            step l p = Inr (p\<lparr>currentScreen := Some (s\<lparr>transitions :=
              Some (ts @ [\<lparr>to = trim (slice_from 2 l), condition = None\<rparr>])\<rparr>)\<rparr>))
       \<and> line_components l = []
       \<and> line_transitions l = [\<lparr>to = trim (slice_from 2 l), condition = None\<rparr>]"
proof (intro conjI)
  show "currentScreen p = Some s \<and> transitions s = Some ts \<longrightarrow>
            step l p = Inr (p\<lparr>currentScreen := Some (s\<lparr>transitions :=
              Some (ts @ [\<lparr>to = trim (slice_from 2 l), condition = None\<rparr>])\<rparr>)\<rparr>)"
    using step_arrow[OF assms] by simp
  have st: "step l \<lparr>screens = [], currentScreen = Some (new_screen [])\<rparr>
      = Inr \<lparr>screens = [], currentScreen = Some ((new_screen [])\<lparr>transitions :=
           Some [\<lparr>to = trim (slice_from 2 l), condition = None\<rparr>]\<rparr>)\<rparr>"
    using step_arrow[OF assms, of "\<lparr>screens = [], currentScreen = Some (new_screen [])\<rparr>"
        "new_screen []" "[]"]
    by (simp add: new_screen_def)
  show "line_components l = []"
    by (simp add: line_components_def body_step_def st) (simp add: new_screen_def)
  show "line_transitions l = [\<lparr>to = trim (slice_from 2 l), condition = None\<rparr>]"
    by (simp add: line_transitions_def body_step_def st)
qed

text \<open>C5, witness: the line \<^verbatim>\<open>=> Home \<close> read while the fresh screen \<open>A\<close> is open.\<close>

theorem C5_unconditional_transition_witness:
  "step ''=> Home '' \<lparr>screens = [], currentScreen = Some (new_screen ''A'')\<rparr>
     = Inr \<lparr>screens = [], currentScreen = Some ((new_screen ''A'')\<lparr>transitions :=
              Some [\<lparr>to = ''Home'', condition = None\<rparr>]\<rparr>)\<rparr>
   \<and> line_components ''=> Home '' = []
   \<and> line_transitions ''=> Home '' = [\<lparr>to = ''Home'', condition = None\<rparr>]"
proof -
  have a: "startsWith ''=>'' ''=> Home ''" by code_simp
  have b: "trim (slice_from 2 ''=> Home '') = ''Home''" by code_simp
  show ?thesis
    using C5_unconditional_transition[OF a,
        of "\<lparr>screens = [], currentScreen = Some (new_screen ''A'')\<rparr>" "new_screen ''A''" "[]"] b
    by (simp add: new_screen_def)
qed

subsection \<open>C6: order of screens, components and transitions\<close>

text \<open>
  C6: for every input text and both parsers, the result has one screen per header
  line, in document order: the screen at index \<open>n - 1\<close> carries the name of the \<open>n\<close>th
  header line. The components of a screen are the components contributed by the lines
  of its block, concatenated in the order of the lines, and so are its transitions.
\<close>

theorem C6_order_preserved:
  "(\<exists>out. parse text = Inr out
      \<and> map name out = map (slice_between 1 1) (filter is_header (lines_of text))
      \<and> map (\<lambda>s. (name s, components s, transitions s)) out
          = map (\<lambda>(h, b). (slice_between 1 1 h, Some (concat (map line_components b)),
                             Some (concat (map line_transitions b))))
              (blocks (lines_of text)))
   \<and> (\<exists>out. parse0 text = Inr out
      \<and> map name0 out = map (slice_between 1 1) (filter is_header (lines_of text))
      \<and> map (\<lambda>s. (name0 s, components0 s, transitions0 s)) out
          = map (\<lambda>(h, b). (slice_between 1 1 h, concat (map line_components0 b),
                             concat (map line_transitions0 b)))
              (blocks (lines_of text)))"
proof (intro conjI)
  let ?ls = "lines_of text"
  have hd: "map (slice_between 1 1) (filter is_header ?ls)
            = map (\<lambda>hb. slice_between 1 1 (fst hb)) (blocks ?ls)"
    unfolding blocks_headers[symmetric] map_map o_def ..
  have n: "map name (map screen_of (blocks ?ls))
            = map (\<lambda>hb. slice_between 1 1 (fst hb)) (blocks ?ls)"
    unfolding map_map map_eq_conv o_def using screen_of_fields[of _ _ ?ls] by auto
  have f: "map (\<lambda>s. (name s, components s, transitions s)) (map screen_of (blocks ?ls))
          = map (\<lambda>(h, b). (slice_between 1 1 h, Some (concat (map line_components b)),
                             Some (concat (map line_transitions b))))
              (blocks ?ls)"
    unfolding map_map map_eq_conv o_def using screen_of_fields[of _ _ ?ls] by auto
  show "\<exists>out. parse text = Inr out
      \<and> map name out = map (slice_between 1 1) (filter is_header ?ls)
      \<and> map (\<lambda>s. (name s, components s, transitions s)) out
          = map (\<lambda>(h, b). (slice_between 1 1 h, Some (concat (map line_components b)),
                             Some (concat (map line_transitions b))))
              (blocks ?ls)"
    unfolding parse_def parse_lines_blocks hd using n f by blast
  have n0: "map name0 (map screen_of0 (blocks ?ls))
            = map (\<lambda>hb. slice_between 1 1 (fst hb)) (blocks ?ls)"
    unfolding map_map map_eq_conv o_def using screen_of0_fields[of _ _ ?ls] by auto
  have f0: "map (\<lambda>s. (name0 s, components0 s, transitions0 s)) (map screen_of0 (blocks ?ls))
          = map (\<lambda>(h, b). (slice_between 1 1 h, concat (map line_components0 b),
                             concat (map line_transitions0 b)))
              (blocks ?ls)"
    unfolding map_map map_eq_conv o_def using screen_of0_fields[of _ _ ?ls] by auto
  show "\<exists>out. parse0 text = Inr out
      \<and> map name0 out = map (slice_between 1 1) (filter is_header ?ls)
      \<and> map (\<lambda>s. (name0 s, components0 s, transitions0 s)) out
          = map (\<lambda>(h, b). (slice_between 1 1 h, concat (map line_components0 b),
                             concat (map line_transitions0 b)))
              (blocks ?ls)"
    unfolding parse0_def parse_lines0_blocks hd using n0 f0 by blast
qed

text \<open>
  C6, witness: a text with two headers; the first block has a text line, an arrow
  line and a button line.
\<close>

theorem C6_order_preserved_witness:
  "(\<exists>out. parse (''[A]'' @ newline @ ''T t'' @ newline @ ''=> B'' @ newline @ ''B b''
                  @ newline @ ''[B]'') = Inr out
      \<and> map name out = [''A'', ''B'']
      \<and> map (\<lambda>s. (name s, components s, transitions s)) out
          = [(''A'', Some [\<lparr>ctype = Text, cname = ''t''\<rparr>, \<lparr>ctype = Button, cname = ''b''\<rparr>],
                    Some [\<lparr>to = ''B'', condition = None\<rparr>]),
             (''B'', Some [], Some [])])
   \<and> (\<exists>out. parse0 (''[A]'' @ newline @ ''T t'' @ newline @ ''=> B'' @ newline @ ''B b''
                  @ newline @ ''[B]'') = Inr out
      \<and> map name0 out = [''A'', ''B'']
      \<and> map (\<lambda>s. (name0 s, components0 s, transitions0 s)) out
          = [(''A'', [\<lparr>ctype0 = Text0, cname0 = ''t''\<rparr>, \<lparr>ctype0 = Action0, cname0 = []\<rparr>,
                      \<lparr>ctype0 = Button0, cname0 = ''b''\<rparr>],
                    [\<lparr>from0 = [], to0 = ''B''\<rparr>]),
             (''B'', [], [])])"
proof -
  let ?t = "''[A]'' @ newline @ ''T t'' @ newline @ ''=> B'' @ newline @ ''B b''
                  @ newline @ ''[B]''"
  have b: "blocks (lines_of ?t) = [(''[A]'', [''T t'', ''=> B'', ''B b'']), (''[B]'', [])]"
    by code_simp
  have f: "map (slice_between 1 1) (filter is_header (lines_of ?t)) = [''A'', ''B'']"
    "slice_between (Suc 0) (Suc 0) ''[A]'' = ''A''"
    "slice_between (Suc 0) (Suc 0) ''[B]'' = ''B''"
    by code_simp+
  have c: "line_components ''T t'' = [\<lparr>ctype = Text, cname = ''t''\<rparr>]"
    "line_components ''=> B'' = []"
    "line_components ''B b'' = [\<lparr>ctype = Button, cname = ''b''\<rparr>]"
    "line_transitions ''T t'' = []"
    "line_transitions ''=> B'' = [\<lparr>to = ''B'', condition = None\<rparr>]"
    "line_transitions ''B b'' = []"
    by code_simp+
  have c0: "line_components0 ''T t'' = [\<lparr>ctype0 = Text0, cname0 = ''t''\<rparr>]"
    "line_components0 ''=> B'' = [\<lparr>ctype0 = Action0, cname0 = []\<rparr>]"
    "line_components0 ''B b'' = [\<lparr>ctype0 = Button0, cname0 = ''b''\<rparr>]"
    "line_transitions0 ''T t'' = []"
    "line_transitions0 ''=> B'' = [\<lparr>from0 = [], to0 = ''B''\<rparr>]"
    "line_transitions0 ''B b'' = []"
    by code_simp+
  from C6_order_preserved[of ?t] show ?thesis
    unfolding b f(1) by (simp add: c c0 f(2,3))
qed

subsection \<open>C7: two headers with the same name\<close>

text \<open>
  C7: when the header lines of two different blocks of the input carry the same name,
  the result of either parser has one screen per header line, the screens at the
  positions of the two blocks bear that name, and each of them is the screen obtained
  by parsing its own block alone: nothing is merged.
\<close>

theorem C7_duplicate_names:
  assumes "bs = blocks (lines_of text)" "i < j" "j < length bs"
    "slice_between 1 1 (fst (bs ! i)) = slice_between 1 1 (fst (bs ! j))"
  shows "(\<exists>out. parse text = Inr out
            \<and> length out = length (filter is_header (lines_of text))
            \<and> name (out ! i) = name (out ! j)
            \<and> parse_lines (fst (bs ! i) # snd (bs ! i)) = Inr [out ! i]
            \<and> parse_lines (fst (bs ! j) # snd (bs ! j)) = Inr [out ! j])
       \<and> (\<exists>out. parse0 text = Inr out
            \<and> length out = length (filter is_header (lines_of text))
            \<and> name0 (out ! i) = name0 (out ! j)
            \<and> parse_lines0 (fst (bs ! i) # snd (bs ! i)) = Inr [out ! i]
            \<and> parse_lines0 (fst (bs ! j) # snd (bs ! j)) = Inr [out ! j])"
proof -
  let ?ls = "lines_of text"
  from assms have i: "i < length bs" and j: "j < length bs" by simp_all
  have len: "length bs = length (filter is_header ?ls)"
    using blocks_headers[of ?ls] assms(1) by (metis length_map)
  have mi: "(fst (bs ! i), snd (bs ! i)) \<in> set (blocks ?ls)"
    and mj: "(fst (bs ! j), snd (bs ! j)) \<in> set (blocks ?ls)"
    using i j assms(1) by simp_all
  note bi = blocks_body[OF mi] and bj = blocks_body[OF mj]
  have si: "parse_lines (fst (bs ! i) # snd (bs ! i)) = Inr [screen_of (bs ! i)]"
    using screen_of_single[of "fst (bs ! i)" "snd (bs ! i)"] bi by simp
  have sj: "parse_lines (fst (bs ! j) # snd (bs ! j)) = Inr [screen_of (bs ! j)]"
    using screen_of_single[of "fst (bs ! j)" "snd (bs ! j)"] bj by simp
  have ni: "name (screen_of (bs ! i)) = name (screen_of (bs ! j))"
    using screen_of_fields[OF mi] screen_of_fields[OF mj] assms(4) by simp
  have si0: "parse_lines0 (fst (bs ! i) # snd (bs ! i)) = Inr [screen_of0 (bs ! i)]"
    using screen_of0_single[of "fst (bs ! i)" "snd (bs ! i)"] bi by simp
  have sj0: "parse_lines0 (fst (bs ! j) # snd (bs ! j)) = Inr [screen_of0 (bs ! j)]"
    using screen_of0_single[of "fst (bs ! j)" "snd (bs ! j)"] bj by simp
  have ni0: "name0 (screen_of0 (bs ! i)) = name0 (screen_of0 (bs ! j))"
    using screen_of0_fields[OF mi] screen_of0_fields[OF mj] assms(4) by simp
  have "parse text = Inr (map screen_of bs)" "parse0 text = Inr (map screen_of0 bs)"
    by (simp_all add: parse_def parse0_def parse_lines_blocks parse_lines0_blocks assms(1))
  with len i j si sj ni si0 sj0 ni0 show ?thesis by simp
qed

text \<open>C7, witness: two blocks named \<open>A\<close> with a block named \<open>B\<close> between them.\<close>

theorem C7_duplicate_names_witness:
  "(\<exists>out. parse (''[A]'' @ newline @ ''T x'' @ newline @ ''[B]'' @ newline @ ''[A]''
                  @ newline @ ''B y'') = Inr out
        \<and> length out = 3 \<and> name (out ! 0) = name (out ! 2)
        \<and> parse_lines [''[A]'', ''T x''] = Inr [out ! 0]
        \<and> parse_lines [''[A]'', ''B y''] = Inr [out ! 2])
   \<and> (\<exists>out. parse0 (''[A]'' @ newline @ ''T x'' @ newline @ ''[B]'' @ newline @ ''[A]''
                  @ newline @ ''B y'') = Inr out
        \<and> length out = 3 \<and> name0 (out ! 0) = name0 (out ! 2)
        \<and> parse_lines0 [''[A]'', ''T x''] = Inr [out ! 0]
        \<and> parse_lines0 [''[A]'', ''B y''] = Inr [out ! 2])"
proof -
  let ?t = "''[A]'' @ newline @ ''T x'' @ newline @ ''[B]'' @ newline @ ''[A]''
                  @ newline @ ''B y''"
  let ?bs = "[(''[A]'', [''T x'']), (''[B]'', []), (''[A]'', [''B y''])]"
  have b: "?bs = blocks (lines_of ?t)" by code_simp
  have f: "length (filter is_header (lines_of ?t)) = 3" by code_simp
  have e: "slice_between 1 1 (fst (?bs ! 0)) = slice_between 1 1 (fst (?bs ! 2))" by simp
  from C7_duplicate_names[OF b _ _ e] show ?thesis
    unfolding f by simp
qed

subsection \<open>C8: names of screens\<close>

text \<open>
  C8, as stated: the header line \<^verbatim>\<open>[]\<close> gives a screen whose name is empty, in both
  parsers.
\<close>

theorem C8_empty_name_counterexample:
  "map_sum id (map name) (parse ''[]'') = Inr [[]]
   \<and> map_sum id (map name0) (parse0 ''[]'') = Inr [[]]"
  by code_simp

text \<open>
  C8, amended: for every input text, the name of every screen in the result of either
  parser is a trimmed header line of the text without its first and its last
  character; it is empty exactly when that header line is \<^verbatim>\<open>[]\<close>.
\<close>

theorem C8_names:
  "(parse text = Inr out \<and> s \<in> set out \<longrightarrow>
      (\<exists>h\<in>set (lines_of text). is_header h \<and> name s = slice_between 1 1 h
          \<and> (name s = [] \<longleftrightarrow> h = ''[]'')))
   \<and> (parse0 text = Inr out0 \<and> s0 \<in> set out0 \<longrightarrow>
      (\<exists>h\<in>set (lines_of text). is_header h \<and> name0 s0 = slice_between 1 1 h
          \<and> (name0 s0 = [] \<longleftrightarrow> h = ''[]'')))"
proof (intro conjI impI)
  let ?ls = "lines_of text"
  have mem: "\<And>h b. (h, b) \<in> set (blocks ?ls) \<Longrightarrow> h \<in> set ?ls \<and> is_header h"
  proof -
    fix h b assume a: "(h, b) \<in> set (blocks ?ls)"
    then have "h \<in> set (map fst (blocks ?ls))" by force
    then show "h \<in> set ?ls \<and> is_header h" by (simp add: blocks_headers)
  qed
  {
    assume "parse text = Inr out \<and> s \<in> set out"
    then obtain h b where hb: "(h, b) \<in> set (blocks ?ls)" "s = screen_of (h, b)"
      by (auto simp: parse_def parse_lines_blocks)
    from screen_of_fields[OF hb(1)] hb(2) have "name s = slice_between 1 1 h" by simp
    with mem[OF hb(1)] header_name_empty[of h]
    show "\<exists>h\<in>set ?ls. is_header h \<and> name s = slice_between 1 1 h
          \<and> (name s = [] \<longleftrightarrow> h = ''[]'')" by auto
  }
  {
    assume "parse0 text = Inr out0 \<and> s0 \<in> set out0"
    then obtain h b where hb: "(h, b) \<in> set (blocks ?ls)" "s0 = screen_of0 (h, b)"
      by (auto simp: parse0_def parse_lines0_blocks)
    from screen_of0_fields[OF hb(1)] hb(2) have "name0 s0 = slice_between 1 1 h" by simp
    with mem[OF hb(1)] header_name_empty[of h]
    show "\<exists>h\<in>set ?ls. is_header h \<and> name0 s0 = slice_between 1 1 h
          \<and> (name0 s0 = [] \<longleftrightarrow> h = ''[]'')" by auto
  }
qed

text \<open>C8, witness: a screen named \<open>Home\<close>, and a screen with the empty name.\<close>

theorem C8_names_witness:
  "(\<exists>h\<in>set (lines_of (''[Home]'' @ newline @ ''T a'')).
      is_header h \<and> ''Home'' = slice_between 1 1 h \<and> ((''Home'' = []) \<longleftrightarrow> h = ''[]''))
   \<and> (\<exists>h\<in>set (lines_of (''[]'' @ newline @ ''T a'')).
      is_header h \<and> [] = slice_between 1 1 h \<and> (([] = ([]::string)) \<longleftrightarrow> h = ''[]''))"
proof -
  have p: "parse (''[Home]'' @ newline @ ''T a'')
      = Inr [\<lparr>etype = Screen, name = ''Home'', requirements = Some no_requirements,
               components = Some [\<lparr>ctype = Text, cname = ''a''\<rparr>], transitions = Some []\<rparr>]"
    by code_simp
  have p0: "parse0 (''[]'' @ newline @ ''T a'')
      = Inr [\<lparr>name0 = [], components0 = [\<lparr>ctype0 = Text0, cname0 = ''a''\<rparr>],
               transitions0 = [], sections0 = []\<rparr>]"
    by code_simp
  show ?thesis
    using C8_names[where ?text = "''[Home]'' @ newline @ ''T a''"
        and out = "[\<lparr>etype = Screen, name = ''Home'', requirements = Some no_requirements,
               components = Some [\<lparr>ctype = Text, cname = ''a''\<rparr>], transitions = Some []\<rparr>]"
        and s = "\<lparr>etype = Screen, name = ''Home'', requirements = Some no_requirements,
               components = Some [\<lparr>ctype = Text, cname = ''a''\<rparr>], transitions = Some []\<rparr>"]
      C8_names[where ?text = "''[]'' @ newline @ ''T a''"
        and ?out0.0 = "[\<lparr>name0 = [], components0 = [\<lparr>ctype0 = Text0, cname0 = ''a''\<rparr>],
               transitions0 = [], sections0 = []\<rparr>]"
        and ?s0.0 = "\<lparr>name0 = [], components0 = [\<lparr>ctype0 = Text0, cname0 = ''a''\<rparr>],
               transitions0 = [], sections0 = []\<rparr>"]
      p p0
    by simp
qed

subsection \<open>C9: the node a duplicated name resolves to\<close>

text \<open>
  C9: in both renderers the table of placed nodes maps a name to the node created for
  the last screen that bears it, and every connector starts at the node of the last
  screen named like its source screen and ends at the node of the last screen named
  like the target of its transition. The nodes created for different positions are
  different nodes.
\<close>

theorem C9_last_occurrence:
  "(last_named (map name ss) k \<longrightarrow> screenNodes ss (name (ss ! k)) = Some (node_at ss k))
   \<and> (c \<in> set (render ss) \<longrightarrow>
        (\<exists>s\<in>set ss. \<exists>ts. \<exists>t\<in>set ts. \<exists>i j. transitions s = Some ts
           \<and> last_named (map name ss) i \<and> name (ss ! i) = name s
           \<and> last_named (map name ss) j \<and> name (ss ! j) = to t
           \<and> connectorStart c = node_at ss i \<and> connectorEnd c = node_at ss j))
   \<and> (last_named (map name0 ss0) k \<longrightarrow>
        screenNodes0 ss0 (name0 (ss0 ! k)) = Some (node_at0 ss0 k))
   \<and> (c0 \<in> set (render0 ss0) \<longrightarrow>
        (\<exists>s\<in>set ss0. \<exists>t\<in>set (transitions0 s). \<exists>i j.
             last_named (map name0 ss0) i \<and> name0 (ss0 ! i) = name0 s
           \<and> last_named (map name0 ss0) j \<and> name0 (ss0 ! j) = to0 t
           \<and> connectorStart0 c0 = node_at0 ss0 i \<and> connectorEnd0 c0 = node_at0 ss0 j))
   \<and> (node_at ss a = node_at ss b \<longrightarrow> a = b)
   \<and> (node_at0 ss0 a = node_at0 ss0 b \<longrightarrow> a = b)"
proof (intro conjI impI)
  assume "node_at ss a = node_at ss b"
  then show "a = b" by (rule node_at_inj)
next
  assume "node_at0 ss0 a = node_at0 ss0 b"
  then show "a = b" by (rule node_at0_inj)
next
  assume "last_named (map name ss) k"
  from place_screens_last[OF this, of 0 Map.empty]
  show "screenNodes ss (name (ss ! k)) = Some (node_at ss k)"
    by (simp add: screenNodes_def node_at_def)
next
  assume "c \<in> set (render ss)"
  then show "\<exists>s\<in>set ss. \<exists>ts. \<exists>t\<in>set ts. \<exists>i j. transitions s = Some ts
           \<and> last_named (map name ss) i \<and> name (ss ! i) = name s
           \<and> last_named (map name ss) j \<and> name (ss ! j) = to t
           \<and> connectorStart c = node_at ss i \<and> connectorEnd c = node_at ss j"
    by (rule render_connector)
next
  assume "last_named (map name0 ss0) k"
  from place_screens0_last[OF this, of 0 Map.empty]
  show "screenNodes0 ss0 (name0 (ss0 ! k)) = Some (node_at0 ss0 k)"
    by (simp add: screenNodes0_def node_at0_def)
next
  assume "c0 \<in> set (render0 ss0)"
  then show "\<exists>s\<in>set ss0. \<exists>t\<in>set (transitions0 s). \<exists>i j.
             last_named (map name0 ss0) i \<and> name0 (ss0 ! i) = name0 s
           \<and> last_named (map name0 ss0) j \<and> name0 (ss0 ! j) = to0 t
           \<and> connectorStart0 c0 = node_at0 ss0 i \<and> connectorEnd0 c0 = node_at0 ss0 j"
    by (rule render0_connector)
qed

text \<open>
  C9, witness: three screens \<open>A\<close>, \<open>B\<close>, \<open>A\<close> with a transition from the first to \<open>B\<close>,
  and two screens \<open>A\<close>, \<open>A\<close> with a transition from the first to \<open>A\<close>.
\<close>

theorem C9_last_occurrence_witness:
  "screenNodes [(new_screen ''A'')\<lparr>transitions := Some [\<lparr>to = ''B'', condition = None\<rparr>]\<rparr>,
                new_screen ''B'', new_screen ''A''] ''A''
     = Some (node_at [(new_screen ''A'')\<lparr>transitions := Some [\<lparr>to = ''B'', condition = None\<rparr>]\<rparr>,
                      new_screen ''B'', new_screen ''A''] 2)
   \<and> render [(new_screen ''A'')\<lparr>transitions := Some [\<lparr>to = ''B'', condition = None\<rparr>]\<rparr>,
             new_screen ''B'', new_screen ''A'']
     = [\<lparr>connectorStart =
           node_at [(new_screen ''A'')\<lparr>transitions := Some [\<lparr>to = ''B'', condition = None\<rparr>]\<rparr>,
                    new_screen ''B'', new_screen ''A''] 2,
         connectorEnd =
           node_at [(new_screen ''A'')\<lparr>transitions := Some [\<lparr>to = ''B'', condition = None\<rparr>]\<rparr>,
                    new_screen ''B'', new_screen ''A''] 1\<rparr>]
   \<and> screenNodes0 [(new_screen0 ''A'')\<lparr>transitions0 := [\<lparr>from0 = ''go'', to0 = ''A''\<rparr>]\<rparr>,
                   new_screen0 ''A''] ''A''
     = Some (node_at0 [(new_screen0 ''A'')\<lparr>transitions0 := [\<lparr>from0 = ''go'', to0 = ''A''\<rparr>]\<rparr>,
                       new_screen0 ''A''] 1)
   \<and> (\<exists>i j. last_named [''A'', ''A''] i \<and> last_named [''A'', ''A''] j
        \<and> node_at0 [(new_screen0 ''A'')\<lparr>transitions0 := [\<lparr>from0 = ''go'', to0 = ''A''\<rparr>]\<rparr>,
                     new_screen0 ''A''] 1
          = node_at0 [(new_screen0 ''A'')\<lparr>transitions0 := [\<lparr>from0 = ''go'', to0 = ''A''\<rparr>]\<rparr>,
                      new_screen0 ''A''] i
        \<and> node_at0 [(new_screen0 ''A'')\<lparr>transitions0 := [\<lparr>from0 = ''go'', to0 = ''A''\<rparr>]\<rparr>,
                     new_screen0 ''A''] 1
          = node_at0 [(new_screen0 ''A'')\<lparr>transitions0 := [\<lparr>from0 = ''go'', to0 = ''A''\<rparr>]\<rparr>,
                      new_screen0 ''A''] j)"
proof -
  let ?ss = "[(new_screen ''A'')\<lparr>transitions := Some [\<lparr>to = ''B'', condition = None\<rparr>]\<rparr>,
              new_screen ''B'', new_screen ''A'']"
  let ?sb = "[(new_screen0 ''A'')\<lparr>transitions0 := [\<lparr>from0 = ''go'', to0 = ''A''\<rparr>]\<rparr>,
               new_screen0 ''A'']"
  let ?cb = "\<lparr>connectorStart0 = node_at0 ?sb 1, connectorEnd0 = node_at0 ?sb 1\<rparr>"
  have l: "last_named (map name ?ss) 2" "name (?ss ! 2) = ''A''"
    "last_named (map name0 ?sb) 1" "name0 (?sb ! 1) = ''A''" "map name0 ?sb = [''A'', ''A'']"
    by code_simp+
  have r: "render ?ss = [\<lparr>connectorStart = node_at ?ss 2, connectorEnd = node_at ?ss 1\<rparr>]"
    by code_simp
  have r0: "?cb \<in> set (render0 ?sb)"
    by code_simp
  note t = C9_last_occurrence[where ss = ?ss and k = 2 and ?ss0.0 = ?sb and ?c0.0 = ?cb]
    C9_last_occurrence[where ?ss0.0 = ?sb and k = 1]
  from t(1) l(1,2) have a: "screenNodes ?ss ''A'' = Some (node_at ?ss 2)" by simp
  from t(2) l(3,4) have b: "screenNodes0 ?sb ''A'' = Some (node_at0 ?sb 1)" by simp
  from t(1) r0 have "\<exists>s\<in>set ?sb. \<exists>t\<in>set (transitions0 s). \<exists>i j.
             last_named (map name0 ?sb) i \<and> name0 (?sb ! i) = name0 s
           \<and> last_named (map name0 ?sb) j \<and> name0 (?sb ! j) = to0 t
           \<and> connectorStart0 ?cb = node_at0 ?sb i \<and> connectorEnd0 ?cb = node_at0 ?sb j"
    by blast
  then have c: "\<exists>i j. last_named [''A'', ''A''] i \<and> last_named [''A'', ''A''] j
        \<and> node_at0 ?sb 1 = node_at0 ?sb i \<and> node_at0 ?sb 1 = node_at0 ?sb j"
    unfolding l(5) by (elim bexE exE conjE) (intro exI conjI, simp_all)
  from a r b c show ?thesis by blast
qed

subsection \<open>C10: lines before the first header\<close>

text \<open>
  C10: in both parsers the lines before the first header line are discarded: a text
  parses to what its lines from the first header line on parse to. A text with no
  header line parses to the empty sequence.
\<close>

theorem C10_before_first_header:
  "parse text = parse_lines (dropWhile (\<lambda>l. \<not> is_header l) (lines_of text))
   \<and> parse0 text = parse_lines0 (dropWhile (\<lambda>l. \<not> is_header l) (lines_of text))
   \<and> ((\<forall>l\<in>set (lines_of text). \<not> is_header l) \<longrightarrow> parse text = Inr [] \<and> parse0 text = Inr [])"
  by (simp add: parse_def parse0_def parse_lines_blocks parse_lines0_blocks blocks_dropWhile
        blocks_no_header)

text \<open>C10, witness: texts that hold component, transition and other lines, but no header.\<close>

theorem C10_before_first_header_witness:
  "parse (''T a'' @ newline @ ''=> b'' @ newline @ ''// P: x'') = Inr []
   \<and> parse0 (''T a'' @ newline @ ''A x => b'' @ newline @ ''--'') = Inr []"
proof -
  have a: "\<forall>l\<in>set (lines_of (''T a'' @ newline @ ''=> b'' @ newline @ ''// P: x'')). \<not> is_header l"
    "\<forall>l\<in>set (lines_of (''T a'' @ newline @ ''A x => b'' @ newline @ ''--'')). \<not> is_header l"
    by code_simp+
  show ?thesis
    using C10_before_first_header[of "''T a'' @ newline @ ''=> b'' @ newline @ ''// P: x''"]
      C10_before_first_header[of "''T a'' @ newline @ ''A x => b'' @ newline @ ''--''"] a
    by blast
qed

end
